theory Spec2Isabelle
  imports Main "HOL-Library.Word"
begin

section \<open>Annotation store (src/Annotation.py)\<close>

text \<open>
  The class \<open>Annotation\<close> keeps its records in an SQLite file with three tables
  (\<open>frames\<close>, \<open>classes\<close>, \<open>session\<close>) and reads and writes them through one connection.
  A table is a list of rows in storage (rowid) order. Integers are Python integers
  (\<open>int\<close>); the values stored are taken to be in SQLite's 64-bit range.
\<close>

subsection \<open>Rows, tables, errors\<close>

text \<open>A row of \<open>frames (frame integer, object integer, class text, contour text, final integer)\<close>.\<close>

record frame_row =
  frame :: int
  object :: int
  cls :: string
  contour :: string
  final :: int

record db =
  frames :: "frame_row list"
  classes :: "string list"
  session :: "(string \<times> int) list"

text \<open>The exceptions the module raises, or lets through from the libraries it calls.\<close>

datatype error =
    ValueError string
  | VideoLoadError string
  | AnnotationFileError string
  | IntegrityError
  | IndexError
  | KeyError
  | TypeError
  | AttributeError
  | RuntimeError

datatype 'a result = Ok 'a | Raise error

type_synonym rgb = "8 word \<times> 8 word \<times> 8 word"
type_synonym image = "nat \<times> nat \<Rightarrow> rgb"

text \<open>
  A \<open>QImage\<close> of format RGB888: its size and the colour of the pixel at \<open>(x, y)\<close>.
  An exported file is either the 16-bit single-channel label image handed to
  \<open>cv2.imwrite\<close> or the colour image saved by Qt.
\<close>

record qimage =
  q_width :: nat
  q_height :: nat
  q_pix :: image

datatype artifact =
    LabelImage nat nat "nat \<times> nat \<Rightarrow> 16 word"
  | ColorImage qimage

text \<open>
  An open video capture: the frame count it reports and what \<open>read\<close> gives after the
  position was set to a 0-based index (\<open>None\<close> when \<open>ret\<close> is false).
\<close>

record capture =
  frame_count :: int
  read_at :: "int \<Rightarrow> image option"

text \<open>
  The object together with the files it works on: \<open>conn\<close> is the database as seen through
  the open connection, uncommitted changes included; \<open>disk\<close> holds the durable content
  of every annotation file; \<open>videos\<close> the videos that can be opened; \<open>images\<close> the
  exported image files; \<open>cwd\<close> the working directory. Files are named by their path
  as written; two spellings of one path are not identified.
\<close>

record state =
  filename :: string
  video_filename :: string
  cap :: "capture option"
  num_frames :: int
  current_frame :: int
  conn :: db
  disk :: "string \<rightharpoonup> db"
  videos :: "string \<rightharpoonup> capture"
  images :: "string \<rightharpoonup> artifact"
  cwd :: string

definition SUFFIX :: string where
  "SUFFIX = ''.atc''"

definition TEMP_WORKING_FILENAME :: string where
  "TEMP_WORKING_FILENAME = ''.working'' @ SUFFIX"

text \<open>\<open>connection.commit()\<close>: the connection's view becomes the content of the bound file.\<close>

definition commit :: "state \<Rightarrow> state" where
  "commit s = s\<lparr>disk := (disk s)(filename s \<mapsto> conn s)\<rparr>"

text \<open>What the bound file holds durably.\<close>

definition durable :: "state \<Rightarrow> db option" where
  "durable s = disk s (filename s)"

subsection \<open>Python strings: \<open>str\<close>, \<open>int\<close>, \<open>split\<close>, \<open>join\<close>\<close>

definition digit_char :: "nat \<Rightarrow> char" where
  "digit_char d = char_of (48 + d)"

definition digit_val :: "char \<Rightarrow> nat option" where
  "digit_val c =
     (let k = (of_char c :: nat) in if 48 \<le> k \<and> k \<le> 57 then Some (k - 48) else None)"

text \<open>\<open>str(n)\<close> for an integer: decimal digits, a minus sign for a negative one.\<close>

fun str_nat :: "nat \<Rightarrow> string" where
  "str_nat n = (if n < 10 then [digit_char n] else str_nat (n div 10) @ [digit_char (n mod 10)])"

declare str_nat.simps [simp del]

definition py_str :: "int \<Rightarrow> string" where
  "py_str i = (if i < 0 then CHR ''-'' # str_nat (nat (- i)) else str_nat (nat i))"

text \<open>
  \<open>int(s)\<close> for a string without surrounding blanks: an optional sign and at least one
  decimal digit; \<open>None\<close> stands for the \<open>ValueError\<close> on anything else.
\<close>

fun nat_of_digits :: "nat \<Rightarrow> string \<Rightarrow> nat option" where
  "nat_of_digits acc [] = Some acc"
| "nat_of_digits acc (c # cs) =
     (case digit_val c of
        None \<Rightarrow> None
      | Some d \<Rightarrow> nat_of_digits (10 * acc + d) cs)"

definition py_int :: "string \<Rightarrow> int option" where
  "py_int s =
     (case s of
        [] \<Rightarrow> None
      | c # cs \<Rightarrow>
          if c = CHR ''-'' then
            (if cs = [] then None else map_option (\<lambda>n. - int n) (nat_of_digits 0 cs))
          else if c = CHR ''+'' then
            (if cs = [] then None else map_option int (nat_of_digits 0 cs))
          else map_option int (nat_of_digits 0 s))"

text \<open>The characters \<open>str.split()\<close> treats as blanks (ASCII).\<close>

definition is_space :: "char \<Rightarrow> bool" where
  "is_space c = (let k = (of_char c :: nat) in (9 \<le> k \<and> k \<le> 13) \<or> (28 \<le> k \<and> k \<le> 32))"

text \<open>\<open>s.split()\<close>: the maximal runs of non-blank characters; \<open>cur\<close> is the run being read.\<close>

fun split_ws :: "string \<Rightarrow> string \<Rightarrow> string list" where
  "split_ws cur [] = (if cur = [] then [] else [cur])"
| "split_ws cur (c # cs) =
     (if is_space c then (if cur = [] then split_ws [] cs else cur # split_ws [] cs)
      else split_ws (cur @ [c]) cs)"

definition py_split :: "string \<Rightarrow> string list" where
  "py_split s = split_ws [] s"

fun py_join :: "string \<Rightarrow> string list \<Rightarrow> string" where
  "py_join sep [] = []"
| "py_join sep [x] = x"
| "py_join sep (x # y # ys) = x @ sep @ py_join sep (y # ys)"

subsection \<open>Queries\<close>

text \<open>\<open>SELECT max(object) from frames\<close>: NULL on an empty table.\<close>

fun sql_max :: "int list \<Rightarrow> int option" where
  "sql_max [] = None"
| "sql_max (x # xs) = Some (fold max xs x)"

text \<open>\<open>int(None)\<close> raises \<open>TypeError\<close>, which the method catches and answers 0.\<close>

definition get_max_id :: "state \<Rightarrow> int" where
  "get_max_id s =
     (case sql_max (map object (frames (conn s))) of
        None \<Rightarrow> 0
      | Some m \<Rightarrow> m)"

definition get :: "state \<Rightarrow> int \<Rightarrow> int option \<Rightarrow> frame_row list" where
  "get s frame_number obj_id =
     (case obj_id of
        Some i \<Rightarrow> filter (\<lambda>r. frame r = frame_number \<and> object r = i) (frames (conn s))
      | None \<Rightarrow> filter (\<lambda>r. frame r = frame_number) (frames (conn s)))"

text \<open>\<open>[int(x) for x in xs]\<close> on a list of strings; the first failure is raised.\<close>

fun ints_of_strings :: "string list \<Rightarrow> int list result" where
  "ints_of_strings [] = Ok []"
| "ints_of_strings (x # xs) =
     (case py_int x of
        None \<Rightarrow> Raise (ValueError ''invalid literal for int()'')
      | Some i \<Rightarrow>
          (case ints_of_strings xs of
             Raise e \<Rightarrow> Raise e
           | Ok is \<Rightarrow> Ok (i # is)))"

text \<open>
  \<open>np.array(data)\<close> on rows that mix integers and text is an array of strings, so the
  first column is read back with \<open>int\<close> from the decimal text of the frame number.
\<close>

definition get_frames_indexes_of_id :: "state \<Rightarrow> int \<Rightarrow> int list result" where
  "get_frames_indexes_of_id s obj_id =
     (let data = filter (\<lambda>r. object r = obj_id) (frames (conn s))
      in if data = [] then Ok []
         else ints_of_strings (map (\<lambda>r. py_str (frame r)) data))"

definition classes_of :: "state \<Rightarrow> string list" where
  "classes_of s = classes (conn s)"

subsection \<open>Mutations\<close>

text \<open>\<open>INSERT INTO classes\<close>; the column is \<open>unique\<close>. The method does not commit.\<close>

definition add_class :: "state \<Rightarrow> string \<Rightarrow> unit result \<times> state" where
  "add_class s class_name =
     (if class_name \<in> set (classes (conn s)) then (Raise IntegrityError, s)
      else (Ok (), s\<lparr>conn := (conn s)\<lparr>classes := classes (conn s) @ [class_name]\<rparr>\<rparr>))"

definition add :: "state \<Rightarrow> int \<Rightarrow> int \<Rightarrow> string \<Rightarrow> int list \<Rightarrow> bool \<Rightarrow> unit result \<times> state" where
  "add s frame_number object_id class_name cont fin =
     (let r = \<lparr>frame = frame_number, object = object_id, cls = class_name,
                contour = py_join '' '' (map py_str cont), final = (if fin then 1 else 0)\<rparr>;
          s1 = s\<lparr>conn := (conn s)\<lparr>frames := frames (conn s) @ [r]\<rparr>\<rparr>
      in (Ok (), commit s1))"

definition remove :: "state \<Rightarrow> int \<Rightarrow> int option \<Rightarrow> unit result \<times> state" where
  "remove s object_id frm =
     (let keep = (case frm of
                    None \<Rightarrow> (\<lambda>r. \<not> object r = object_id)
                  | Some f \<Rightarrow> (\<lambda>r. \<not> (object r = object_id \<and> frame r = f)));
          s1 = s\<lparr>conn := (conn s)\<lparr>frames := filter keep (frames (conn s))\<rparr>\<rparr>
      in (Ok (), commit s1))"

definition change_class :: "state \<Rightarrow> int \<Rightarrow> string \<Rightarrow> unit result \<times> state" where
  "change_class s obj_id class_name =
     (let s1 = s\<lparr>conn := (conn s)\<lparr>frames :=
                  map (\<lambda>r. if object r = obj_id then r\<lparr>cls := class_name\<rparr> else r)
                      (frames (conn s))\<rparr>\<rparr>
      in (Ok (), commit s1))"

definition finalize_object :: "state \<Rightarrow> int \<Rightarrow> int \<Rightarrow> unit result \<times> state" where
  "finalize_object s obj_id frame_number =
     (let s1 = s\<lparr>conn := (conn s)\<lparr>frames :=
                  map (\<lambda>r. if object r = obj_id \<and> frame r = frame_number then r\<lparr>final := 1\<rparr> else r)
                      (frames (conn s))\<rparr>\<rparr>
      in (Ok (), commit s1))"

definition finalize_frame :: "state \<Rightarrow> int \<Rightarrow> unit result \<times> state" where
  "finalize_frame s frame_number =
     (let s1 = s\<lparr>conn := (conn s)\<lparr>frames :=
                  map (\<lambda>r. if frame r = frame_number then r\<lparr>final := 1\<rparr> else r)
                      (frames (conn s))\<rparr>\<rparr>
      in (Ok (), commit s1))"

text \<open>The messages of the four \<open>ValueError\<close>s of \<open>combine_objects\<close>.\<close>

definition msg_invalid_id :: string where
  "msg_invalid_id = ''object ID'' @ [CHR 0x27] @ ''s must be positive integers''"

definition msg_no_from :: string where
  "msg_no_from = ''Error: '' @ [CHR 0x22] @ ''From ID'' @ [CHR 0x22] @ '' is not exist''"

definition msg_no_to :: string where
  "msg_no_to = ''Error: '' @ [CHR 0x22] @ ''To ID'' @ [CHR 0x22] @ '' is not exist''"

definition msg_shared :: string where
  "msg_shared = ''Error: There are frames with both objects''"

text \<open>\<open>UPDATE frames SET object=(?), class=(?) WHERE object=(?)\<close>.\<close>

definition merged :: "int \<Rightarrow> int \<Rightarrow> string \<Rightarrow> frame_row list \<Rightarrow> frame_row list" where
  "merged a b c rows = map (\<lambda>r. if object r = a then r\<lparr>object := b, cls := c\<rparr> else r) rows"

definition combine_objects :: "state \<Rightarrow> int \<Rightarrow> int \<Rightarrow> unit result \<times> state" where
  "combine_objects s from_id to_id =
     (let rows = frames (conn s) in
      if from_id \<le> 0 \<or> to_id \<le> 0 then (Raise (ValueError msg_invalid_id), s)
      else if filter (\<lambda>r. object r = from_id) rows = [] then (Raise (ValueError msg_no_from), s)
      else if filter (\<lambda>r. object r = to_id) rows = [] then (Raise (ValueError msg_no_to), s)
      else if filter (\<lambda>r. object r = from_id \<and>
                  frame r \<in> set (map frame (filter (\<lambda>q. object q = to_id) rows))) rows \<noteq> []
        then (Raise (ValueError msg_shared), s)
      else
        (case take 1 (map cls (filter (\<lambda>r. object r = to_id) rows)) of
           [] \<Rightarrow> (Raise IndexError, s)
         | class_to_id # _ \<Rightarrow>
             let s1 = s\<lparr>conn := (conn s)\<lparr>frames := merged from_id to_id class_to_id rows\<rparr>\<rparr>
             in (Ok (), commit s1)))"

subsection \<open>The frame cursor and the video\<close>

definition set_frame :: "state \<Rightarrow> int \<Rightarrow> unit result \<times> state" where
  "set_frame s frame_number =
     (if frame_number < 1 \<or> frame_number > num_frames s then (Ok (), s)
      else
        let s1 = s\<lparr>current_frame := frame_number\<rparr>;
            s2 = s1\<lparr>conn := (conn s1)\<lparr>session :=
                   map (\<lambda>(v, c). (v, current_frame s1)) (session (conn s1))\<rparr>\<rparr>
        in (Ok (), commit s2))"

definition get_frame_image :: "state \<Rightarrow> image option result" where
  "get_frame_image s =
     (case cap s of
        None \<Rightarrow> Ok None
      | Some c \<Rightarrow>
          (case read_at c (current_frame s - 1) of
             None \<Rightarrow> Raise (VideoLoadError (''error reading frame '' @ py_str (current_frame s)))
           | Some img \<Rightarrow> Ok (Some img)))"

subsection \<open>Opening, loading and saving\<close>

definition open_video :: "state \<Rightarrow> string \<Rightarrow> unit result \<times> state" where
  "open_video s video =
     (case videos s video of
        None \<Rightarrow>
          (Raise (VideoLoadError (''failed to open video '' @ video @
                    ''. file might have been moved or corrupted'')), s\<lparr>cap := None\<rparr>)
      | Some c \<Rightarrow>
          (Ok (), s\<lparr>cap := Some c, num_frames := frame_count c, video_filename := video\<rparr>))"

text \<open>
  \<open>load\<close>: a file that is missing or is no database gives \<open>DatabaseError\<close>, reported as
  \<open>AnnotationFileError\<close> (the connection opened on it has no table to show and is left
  out of the state); \<open>fetchone()\<close> on an empty session table gives \<open>None\<close>, whose
  indexing is a \<open>TypeError\<close>.
\<close>

definition load :: "state \<Rightarrow> string \<Rightarrow> unit result \<times> state" where
  "load s fname =
     (case disk s fname of
        None \<Rightarrow>
          (Raise (AnnotationFileError (''error reading annotation '' @ fname @
                    ''. file might be corrupted'')), s)
      | Some d \<Rightarrow>
          let s1 = s\<lparr>conn := d\<rparr> in
          (case session d of
             [] \<Rightarrow> (Raise TypeError, s1)
           | params # _ \<Rightarrow>
               (case open_video s1 (fst params) of
                  (Raise e, s2) \<Rightarrow> (Raise e, s2)
                | (Ok u, s2) \<Rightarrow> set_frame (s2\<lparr>filename := fname\<rparr>) (snd params))))"

definition save :: "state \<Rightarrow> string \<Rightarrow> unit result \<times> state" where
  "save s fname =
     (if fname \<noteq> filename s then
        if fname = TEMP_WORKING_FILENAME then (Raise (ValueError ''Illegal filename''), s)
        else
          let s1 = commit s;
              s2 = s1\<lparr>disk := (disk s1)(fname := disk s1 (filename s1))\<rparr>;
              s3 = (if filename s2 = TEMP_WORKING_FILENAME
                    then s2\<lparr>disk := (disk s2)(filename s2 := None)\<rparr> else s2)
          in (case load s3 fname of
                (Raise e, s4) \<Rightarrow> (Raise e, s4)
              | (Ok u, s4) \<Rightarrow>
                  (Ok (), if TEMP_WORKING_FILENAME \<in> dom (disk s4)
                          then s4\<lparr>disk := (disk s4)(TEMP_WORKING_FILENAME := None)\<rparr> else s4))
      else (Ok (), s))"

text \<open>\<open>os.path.abspath\<close> of a name: relative names are taken from the working directory.\<close>

definition abspath :: "string \<Rightarrow> string \<Rightarrow> string" where
  "abspath dir p = (if take 1 p = ''/'' then p else dir @ ''/'' @ p)"

definition is_file_saved :: "state \<Rightarrow> bool" where
  "is_file_saved s = (filename s \<noteq> abspath (cwd s) TEMP_WORKING_FILENAME)"

definition exit_session :: "state \<Rightarrow> state" where
  "exit_session s = commit s"

subsection \<open>Export\<close>

text \<open>
  What \<open>export\<close> is called with, and the two services it uses without implementing them:
  \<open>covers pts p\<close> tells whether Qt's \<open>drawPolygon\<close> (pen of width 2 and brush of one
  colour, no anti-aliasing) paints pixel \<open>p\<close> for the polygon \<open>pts\<close>, and
  \<open>was_canceled i\<close> is the answer of the progress dialog before the \<open>i\<close>-th frame is
  handed out. \<open>colormap\<close> is the array indexed by object id (\<open>None\<close>: the index is out of
  range), \<open>inverse_colormap\<close> the dictionary from colours to ids (\<open>None\<close>: no such key).
  The parameter \<open>filename\<close> of the source is the field \<open>prefix\<close>. \<open>generator_stop\<close>
  tells which interpreter runs the module: one that turns a \<open>StopIteration\<close> raised
  inside a generator into \<open>RuntimeError\<close> (Python 3.7 and later), or an earlier one,
  where it only ends the generator.
\<close>

record export_args =
  shape :: "nat \<times> nat"
  dirname :: string
  prefix :: string
  colormap :: "int \<Rightarrow> rgb option"
  inverse_colormap :: "rgb \<Rightarrow> int option"
  suffix :: string
  covers :: "(int \<times> int) list \<Rightarrow> nat \<times> nat \<Rightarrow> bool"
  was_canceled :: "nat \<Rightarrow> bool"
  generator_stop :: bool

text \<open>\<open>xs[::2]\<close> and \<open>xs[1::2]\<close>.\<close>

fun evens :: "'a list \<Rightarrow> 'a list" where
  "evens [] = []"
| "evens [x] = [x]"
| "evens (x # y # xs) = x # evens xs"

definition odds :: "'a list \<Rightarrow> 'a list" where
  "odds xs = (case xs of [] \<Rightarrow> [] | _ # ys \<Rightarrow> evens ys)"

definition contour_points :: "string \<Rightarrow> (int \<times> int) list result" where
  "contour_points c =
     (case ints_of_strings (py_split c) of
        Raise e \<Rightarrow> Raise e
      | Ok points \<Rightarrow> Ok (zip (evens points) (odds points)))"

text \<open>\<open>QImage(w, h, Format_RGB888)\<close> after \<open>fill(0)\<close>.\<close>

definition blank :: "nat \<Rightarrow> nat \<Rightarrow> qimage" where
  "blank w h = \<lparr>q_width = w, q_height = h, q_pix = (\<lambda>p. (0, 0, 0))\<rparr>"

definition drawPolygon :: "export_args \<Rightarrow> qimage \<Rightarrow> (int \<times> int) list \<Rightarrow> rgb \<Rightarrow> qimage" where
  "drawPolygon a img pts col =
     img\<lparr>q_pix := (\<lambda>p. if fst p < q_width img \<and> snd p < q_height img \<and> covers a pts p
                         then col else q_pix img p)\<rparr>"

text \<open>The loop over the records of one frame: the canvas and the list \<open>frame_colors\<close>.\<close>

fun draw_records ::
  "export_args \<Rightarrow> frame_row list \<Rightarrow> qimage \<Rightarrow> rgb list \<Rightarrow> (qimage \<times> rgb list) result" where
  "draw_records a [] img frame_colors = Ok (img, frame_colors)"
| "draw_records a (r # rs) img frame_colors =
     (case contour_points (contour r) of
        Raise e \<Rightarrow> Raise e
      | Ok pts \<Rightarrow>
          (case colormap a (object r) of
             None \<Rightarrow> Raise IndexError
           | Some rgb \<Rightarrow> draw_records a rs (drawPolygon a img pts rgb) (frame_colors @ [rgb])))"

text \<open>
  \<open>qimage2cv\<close> reshapes the image's buffer to \<open>(height, width, 3)\<close>. Qt pads every scan
  line to a multiple of four bytes, so the buffer has that many bytes only for a width
  whose three bytes per pixel fill the lines; a null image (no width or no height) has no
  buffer.
\<close>

definition bytes_per_line :: "nat \<Rightarrow> nat" where
  "bytes_per_line w = 4 * ((3 * w + 3) div 4)"

definition qimage2cv :: "qimage \<Rightarrow> image result" where
  "qimage2cv img =
     (if q_width img = 0 \<or> q_height img = 0 then Raise AttributeError
      else if bytes_per_line (q_width img) * q_height img \<noteq> q_height img * q_width img * 3
        then Raise (ValueError ''cannot reshape array'')
      else Ok (q_pix img))"

definition export_path :: "export_args \<Rightarrow> int \<Rightarrow> string" where
  "export_path a f =
     dirname a @ ''/'' @ prefix a @ py_str f @
       (if ''.tiff'' = suffix a then ''.tiff'' else ''.png'')"

text \<open>
  The loop over \<open>frame_colors\<close>, one round per record of the frame: \<open>mask\<close>
  (\<open>cv2.inRange(cv_image, c, c) / 255\<close>) is 1 where the canvas has colour \<open>c\<close> and 0
  elsewhere; the id of \<open>c\<close> times the mask is added into the \<open>uint16\<close> image, which wraps
  modulo \<open>2 ^ 16\<close>; the image is written to the frame's file in every round. The
  arithmetic is read on integers.
\<close>

fun decode_colors ::
  "export_args \<Rightarrow> image \<Rightarrow> int \<Rightarrow> rgb list \<Rightarrow> (nat \<times> nat \<Rightarrow> 16 word) \<Rightarrow> state
     \<Rightarrow> unit result \<times> state" where
  "decode_colors a cv_image f [] res s = (Ok (), s)"
| "decode_colors a cv_image f (c # cs) res s =
     (case inverse_colormap a c of
        None \<Rightarrow> (Raise KeyError, s)
      | Some i \<Rightarrow>
          let res1 = (\<lambda>p. res p + word_of_int i * (if cv_image p = c then 1 else 0));
              s1 = s\<lparr>images := (images s)(export_path a f \<mapsto>
                      LabelImage (fst (shape a)) (snd (shape a)) res1)\<rparr>
          in decode_colors a cv_image f cs res1 s1)"

text \<open>The body of the loop over the requested frames.\<close>

definition export_frame :: "export_args \<Rightarrow> state \<Rightarrow> int \<Rightarrow> unit result \<times> state" where
  "export_frame a s f =
     (let qt_image = blank (fst (shape a)) (snd (shape a));
          records = get s f None
      in case draw_records a records qt_image [] of
           Raise e \<Rightarrow> (Raise e, s)
         | Ok (img, frame_colors) \<Rightarrow>
             if length frame_colors = 0 then (Ok (), s)
             else if ''.tiff'' = suffix a then
               (case qimage2cv img of
                  Raise e \<Rightarrow> (Raise e, s)
                | Ok cv_image \<Rightarrow> decode_colors a cv_image f frame_colors (\<lambda>p. 0) s)
             else if q_width img = 0 \<or> q_height img = 0 then (Ok (), s)
             else (Ok (), s\<lparr>images := (images s)(export_path a f \<mapsto> ColorImage img)\<rparr>))"

text \<open>
  \<open>for i in progress(range(len(frames)), ...)\<close>: before each index is handed out the
  dialog is asked, and when it was cancelled the generator \<open>progress\<close> executes
  \<open>raise StopIteration\<close>. Before Python 3.7 that ends the generator, so the loop is
  over and \<open>export\<close> returns; from Python 3.7 on the caller gets \<open>RuntimeError\<close>.
\<close>

fun export_frames :: "export_args \<Rightarrow> nat \<Rightarrow> int list \<Rightarrow> state \<Rightarrow> unit result \<times> state" where
  "export_frames a i [] s = (Ok (), s)"
| "export_frames a i (f # fs) s =
     (if was_canceled a i then
        (if generator_stop a then (Raise RuntimeError, s) else (Ok (), s))
      else case export_frame a s f of
             (Raise e, s1) \<Rightarrow> (Raise e, s1)
           | (Ok u, s1) \<Rightarrow> export_frames a (Suc i) fs s1)"

definition export :: "state \<Rightarrow> export_args \<Rightarrow> int list \<Rightarrow> unit result \<times> state" where
  "export s a frms = export_frames a 0 frms s"

text \<open>
  What the export of frame \<open>f\<close> needs to run through: every contour of the frame is the
  text of integers, the colormap has a colour for every object id of the frame, and, for
  a label image, the inverse colormap maps that colour back to the id.
\<close>

definition frame_ready :: "export_args \<Rightarrow> state \<Rightarrow> int \<Rightarrow> bool" where
  "frame_ready a s f =
     (\<forall>r \<in> set (get s f None).
        (case contour_points (contour r) of Ok pts \<Rightarrow> True | Raise e \<Rightarrow> False) \<and>
        (case colormap a (object r) of
           None \<Rightarrow> False
         | Some col \<Rightarrow> ''.tiff'' = suffix a \<longrightarrow> inverse_colormap a col = Some (object r)))"

subsection \<open>A small store for concrete runs\<close>

definition s0 :: state where
  "s0 = \<lparr>filename = ''a.atc'', video_filename = ''v.mp4'', cap = None, num_frames = 10,
         current_frame = 1,
         conn = \<lparr>frames = [], classes = [], session = [(''v.mp4'', 1)]\<rparr>,
         disk = Map.empty, videos = Map.empty, images = Map.empty, cwd = ''/home''\<rparr>"

text \<open>Object 1 in frame 1; objects 2 and 3 together in frame 2.\<close>

definition s_two :: state where
  "s_two = snd (add (snd (add (snd (add s0 1 1 ''car'' [] True)) 2 2 ''bus'' [] True))
     2 3 ''bus'' [] False)"

text \<open>
  An export to run: the colormap that writes an id below \<open>2 ^ 24\<close> into the three colour
  bytes, its inverse, a rasteriser that paints the vertices of a polygon, and a dialog
  that is never cancelled. In \<open>s_ex\<close> frame 1 holds objects 1 and 2, frame 2 nothing and
  frame 3 object 1; in \<open>s_big\<close> frame 1 holds object 65536.
\<close>

definition rgb_of_id :: "int \<Rightarrow> rgb option" where
  "rgb_of_id i =
     (if 0 \<le> i \<and> i < 16777216
      then Some (word_of_int i, word_of_int (i div 256), word_of_int (i div 65536))
      else None)"

definition id_of_rgb :: "rgb \<Rightarrow> int option" where
  "id_of_rgb c = (case c of (r, g, b) \<Rightarrow> Some (uint r + 256 * uint g + 65536 * uint b))"

definition vertex_covers :: "(int \<times> int) list \<Rightarrow> nat \<times> nat \<Rightarrow> bool" where
  "vertex_covers pts p = ((int (fst p), int (snd p)) \<in> set pts)"

definition a_tiff :: export_args where
  "a_tiff = \<lparr>shape = (4, 4), dirname = ''out'', prefix = ''img'', colormap = rgb_of_id,
       inverse_colormap = id_of_rgb, suffix = ''.tiff'', covers = vertex_covers,
       was_canceled = (\<lambda>k. False), generator_stop = True\<rparr>"

definition s_ex :: state where
  "s_ex = s0\<lparr>conn := \<lparr>frames =
       [\<lparr>frame = 1, object = 1, cls = ''car'', contour = ''0 0 1 0 1 1'', final = 1\<rparr>,
        \<lparr>frame = 1, object = 2, cls = ''bus'', contour = ''2 2 3 2 3 3'', final = 1\<rparr>,
        \<lparr>frame = 3, object = 1, cls = ''car'', contour = ''0 0 1 0 1 1'', final = 0\<rparr>],
       classes = [''car'', ''bus''], session = [(''v.mp4'', 1)]\<rparr>\<rparr>"


section \<open>Properties\<close>

lemma fold_max_Max: "fold max xs (a::int) = Max (insert a (set xs))"
  by (metis Max.set_eq_fold list.simps(15))

subsection \<open>Decimal text and back\<close>

lemma digit_val_digit_char: "d < 10 \<Longrightarrow> digit_val (digit_char d) = Some d"
  by (simp add: digit_val_def digit_char_def Let_def)




lemma digit_char_not_sign: "d < 10 \<Longrightarrow> digit_char d \<noteq> CHR ''-'' \<and> digit_char d \<noteq> CHR ''+''"
  by (auto simp: digit_char_def dest: arg_cong [where f = "of_char :: char \<Rightarrow> nat"])

lemma nat_of_digits_append:
  "nat_of_digits a (xs @ ys) =
     (case nat_of_digits a xs of None \<Rightarrow> None | Some m \<Rightarrow> nat_of_digits m ys)"
  by (induction xs arbitrary: a) (auto split: option.splits)

lemma nat_of_digits_str_nat: "nat_of_digits 0 (str_nat n) = Some n"
proof (induction n rule: str_nat.induct)
  case (1 n)
  show ?case
  proof (cases "n < 10")
    case True
    then show ?thesis
      by (subst str_nat.simps) (simp add: digit_val_digit_char)
  next
    case False
    with 1 have "nat_of_digits 0 (str_nat (n div 10)) = Some (n div 10)" by simp
    with False show ?thesis
      by (subst str_nat.simps) (simp add: nat_of_digits_append digit_val_digit_char)
  qed
qed

lemma str_nat_not_Nil: "str_nat n \<noteq> []"
  by (subst str_nat.simps) simp

lemma str_nat_chars: "c \<in> set (str_nat n) \<Longrightarrow> \<exists>d<10. c = digit_char d"
proof (induction n rule: str_nat.induct)
  case (1 n)
  show ?case
  proof (cases "n < 10")
    case True
    with 1(2) show ?thesis
      by (subst (asm) str_nat.simps) auto
  next
    case False
    from 1(2) False have "c \<in> set (str_nat (n div 10)) \<or> c = digit_char (n mod 10)"
      by (subst (asm) str_nat.simps) auto
    then show ?thesis
    proof
      assume "c \<in> set (str_nat (n div 10))"
      with 1(1) False show ?thesis by simp
    next
      assume "c = digit_char (n mod 10)"
      moreover have "n mod 10 < 10" by simp
      ultimately show ?thesis by blast
    qed
  qed
qed

lemma str_nat_hd_not_sign: "\<exists>c cs. str_nat n = c # cs \<and> c \<noteq> CHR ''-'' \<and> c \<noteq> CHR ''+''"
proof (cases "str_nat n")
  case Nil
  then show ?thesis by (simp add: str_nat_not_Nil)
next
  case (Cons c cs)
  then have "c \<in> set (str_nat n)" by simp
  then obtain d where "d < 10" "c = digit_char d" using str_nat_chars by blast
  with Cons show ?thesis using digit_char_not_sign by auto
qed

lemma py_int_py_str: "py_int (py_str i) = Some i"
proof (cases "i < 0")
  case True
  then show ?thesis
    by (simp add: py_int_def py_str_def str_nat_not_Nil nat_of_digits_str_nat)
next
  case False
  obtain c cs where "str_nat (nat i) = c # cs" "c \<noteq> CHR ''-''" "c \<noteq> CHR ''+''"
    using str_nat_hd_not_sign by blast
  moreover have "nat_of_digits 0 (str_nat (nat i)) = Some (nat i)"
    by (rule nat_of_digits_str_nat)
  ultimately show ?thesis using False
    by (simp add: py_int_def py_str_def)
qed



lemma py_str_inj: "py_str i = py_str j \<Longrightarrow> i = j"
  by (metis py_int_py_str option.inject)



lemma ints_of_strings_str: "ints_of_strings (map py_str xs) = Ok xs"
  by (induction xs) (simp_all add: py_int_py_str)

subsection \<open>Reading the store after an operation\<close>

lemma conn_add:
  "conn (snd (add s f i c p b)) = (conn s)\<lparr>frames := frames (conn s) @
     [\<lparr>frame = f, object = i, cls = c, contour = py_join '' '' (map py_str p),
       final = (if b then 1 else 0)\<rparr>]\<rparr>"
  by (simp add: add_def commit_def Let_def)

lemma get_frames_indexes_of_id_eq:
  "get_frames_indexes_of_id s i = Ok (map frame (filter (\<lambda>r. object r = i) (frames (conn s))))"
proof -
  have "ints_of_strings (map (\<lambda>r. py_str (frame r)) xs) = Ok (map frame xs)"
    for xs :: "frame_row list"
    using ints_of_strings_str [of "map frame xs"] by (simp add: comp_def)
  then show ?thesis by (simp add: get_frames_indexes_of_id_def Let_def)
qed


text \<open>Every operation that ends in \<open>connection.commit()\<close> leaves the file equal to the view.\<close>

lemma committing_operations:
  "durable (snd (add s f i c p b)) = Some (conn (snd (add s f i c p b)))"
  "durable (snd (remove s i fo)) = Some (conn (snd (remove s i fo)))"
  "durable (snd (change_class s i c)) = Some (conn (snd (change_class s i c)))"
  "durable (snd (finalize_object s i f)) = Some (conn (snd (finalize_object s i f)))"
  "durable (snd (finalize_frame s f)) = Some (conn (snd (finalize_frame s f)))"
  "fst (combine_objects s a b') = Ok () \<Longrightarrow>
     durable (snd (combine_objects s a b')) = Some (conn (snd (combine_objects s a b')))"
  "1 \<le> n \<Longrightarrow> n \<le> num_frames s \<Longrightarrow>
     durable (snd (set_frame s n)) = Some (conn (snd (set_frame s n)))"
  by (auto simp: add_def remove_def change_class_def finalize_object_def finalize_frame_def
      combine_objects_def set_frame_def commit_def durable_def Let_def
      split: list.splits if_splits)

subsection \<open>The merge, step by step\<close>

lemma combine_objects_ok:
  assumes "0 < a" "0 < b"
    and "\<exists>r \<in> set (frames (conn s)). object r = a"
    and "\<exists>r \<in> set (frames (conn s)). object r = b"
    and "\<forall>r \<in> set (frames (conn s)). \<forall>q \<in> set (frames (conn s)).
           object r = a \<and> object q = b \<longrightarrow> frame r \<noteq> frame q"
  shows "combine_objects s a b =
     (Ok (), commit (s\<lparr>conn := (conn s)\<lparr>frames :=
        merged a b (cls (hd (filter (\<lambda>r. object r = b) (frames (conn s))))) (frames (conn s))\<rparr>\<rparr>))"
proof -
  let ?rows = "frames (conn s)"
  have fa: "filter (\<lambda>r. object r = a) ?rows \<noteq> []"
    using assms(3) by (simp add: filter_empty_conv)
  have fb: "filter (\<lambda>r. object r = b) ?rows \<noteq> []"
    using assms(4) by (simp add: filter_empty_conv)
  have sh: "filter (\<lambda>r. object r = a \<and>
      frame r \<in> set (map frame (filter (\<lambda>q. object q = b) ?rows))) ?rows = []"
    using assms(5) by (auto simp: filter_empty_conv)
  obtain x xs where x: "filter (\<lambda>r. object r = b) ?rows = x # xs"
    using fb by (cases "filter (\<lambda>r. object r = b) ?rows") auto
  have "combine_objects s a b =
     (Ok (), commit (s\<lparr>conn := (conn s)\<lparr>frames := merged a b (cls x) ?rows\<rparr>\<rparr>))"
    unfolding combine_objects_def Let_def merged_def
    using assms(1,2) fa fb sh by (simp add: x)
  then show ?thesis by (simp add: x)
qed

lemma merged_no_from: "a \<noteq> b \<Longrightarrow> filter (\<lambda>r. object r = a) (merged a b c rows) = []"
  by (auto simp: merged_def filter_empty_conv)

lemma merged_frames_to:
  "a \<noteq> b \<Longrightarrow> set (map frame (filter (\<lambda>r. object r = b) (merged a b c rows))) =
     set (map frame (filter (\<lambda>r. object r = a) rows)) \<union>
     set (map frame (filter (\<lambda>r. object r = b) rows))"
  by (induction rows) (auto simp: merged_def)

lemma merged_cls:
  assumes "r \<in> set (merged a b c rows)" "object r = b"
  shows "cls r = c \<or> (\<exists>q \<in> set rows. object q = b \<and> cls q = cls r)"
proof -
  from assms(1) obtain x where x: "x \<in> set rows"
    "r = (if object x = a then x\<lparr>object := b, cls := c\<rparr> else x)"
    unfolding merged_def by auto
  show ?thesis
  proof (cases "object x = a")
    case True
    with x(2) have "cls r = c" by simp
    then show ?thesis ..
  next
    case False
    with x assms(2) show ?thesis by auto
  qed
qed

lemma hd_filter_in: "filter P xs \<noteq> [] \<Longrightarrow> hd (filter P xs) \<in> set xs \<and> P (hd (filter P xs))"
  using hd_in_set [of "filter P xs"] by auto

lemma rows_s_two: "frames (conn s_two) =
  [\<lparr>frame = 1, object = 1, cls = ''car'', contour = [], final = 1\<rparr>,
   \<lparr>frame = 2, object = 2, cls = ''bus'', contour = [], final = 1\<rparr>,
   \<lparr>frame = 2, object = 3, cls = ''bus'', contour = [], final = 0\<rparr>]"
  by (simp add: s_two_def conn_add s0_def)

subsection \<open>The export, frame by frame\<close>

lemma export_path_inj: "export_path a f = export_path a g \<Longrightarrow> f = g"
  by (auto simp: export_path_def dest: py_str_inj)

lemma get_conn: "conn t = conn s \<Longrightarrow> get t f i = get s f i"
  by (cases i) (simp_all add: get_def)

lemma draw_records_ok:
  assumes "\<forall>r \<in> set rs. (\<exists>pts. contour_points (contour r) = Ok pts) \<and>
             (\<exists>col. colormap a (object r) = Some col)"
  shows "\<exists>img1. draw_records a rs img cols =
           Ok (img1, cols @ map (\<lambda>r. the (colormap a (object r))) rs) \<and>
         q_width img1 = q_width img \<and> q_height img1 = q_height img"
  using assms
proof (induction rs arbitrary: img cols)
  case Nil
  then show ?case by simp
next
  case (Cons r rs)
  from Cons.prems obtain pts col where r: "contour_points (contour r) = Ok pts"
    "colormap a (object r) = Some col" by auto
  from Cons.prems have "\<forall>r \<in> set rs. (\<exists>pts. contour_points (contour r) = Ok pts) \<and>
             (\<exists>col. colormap a (object r) = Some col)" by simp
  from Cons.IH [OF this, of "drawPolygon a img pts col" "cols @ [col]"]
  show ?case using r by (auto simp: drawPolygon_def)
qed

lemma decode_colors_ok:
  assumes "\<forall>c \<in> set cs. \<exists>i. inverse_colormap a c = Some i"
  shows "\<exists>res1. decode_colors a cv f cs res s =
           (Ok (), if cs = [] then s
                   else s\<lparr>images := (images s)(export_path a f \<mapsto>
                          LabelImage (fst (shape a)) (snd (shape a)) res1)\<rparr>) \<and>
         (\<forall>p. res1 p = res p + sum_list (map (\<lambda>c. word_of_int (the (inverse_colormap a c)) *
                                    (if cv p = c then 1 else 0)) cs))"
  using assms
proof (induction cs arbitrary: res s)
  case Nil
  show ?case by (intro exI [of _ res]) simp
next
  case (Cons c cs)
  from Cons.prems obtain i where i: "inverse_colormap a c = Some i" by auto
  define res1 where "res1 = (\<lambda>p. res p + word_of_int i * (if cv p = c then 1 else (0::16 word)))"
  define s1 where "s1 = s\<lparr>images := (images s)(export_path a f \<mapsto>
                      LabelImage (fst (shape a)) (snd (shape a)) res1)\<rparr>"
  have step: "decode_colors a cv f (c # cs) res s = decode_colors a cv f cs res1 s1"
    by (simp add: i res1_def s1_def Let_def)
  from Cons.prems have "\<forall>c \<in> set cs. \<exists>i. inverse_colormap a c = Some i" by simp
  from Cons.IH [OF this, of res1 s1] obtain res2 where res2:
    "decode_colors a cv f cs res1 s1 =
           (Ok (), if cs = [] then s1
                   else s1\<lparr>images := (images s1)(export_path a f \<mapsto>
                          LabelImage (fst (shape a)) (snd (shape a)) res2)\<rparr>)"
    "\<forall>p. res2 p = res1 p + sum_list (map (\<lambda>c. word_of_int (the (inverse_colormap a c)) *
                                    (if cv p = c then 1 else 0)) cs)"
    by blast
  show ?case
  proof (cases "cs = []")
    case True
    with step res2 show ?thesis
      by (intro exI [of _ res1]) (simp add: s1_def res1_def i)
  next
    case False
    with step res2 show ?thesis
      by (intro exI [of _ res2]) (simp add: s1_def res1_def i add.assoc)
  qed
qed

lemma sum_list_one_hit:
  fixes g :: "'c \<Rightarrow> 16 word"
  assumes "distinct cs" "c0 \<in> set cs"
  shows "sum_list (map (\<lambda>c. g c * (if c0 = c then 1 else 0)) cs) = g c0"
  using assms
proof (induction cs)
  case Nil
  then show ?case by simp
next
  case (Cons c cs)
  have z: "c0 \<notin> set xs \<Longrightarrow> sum_list (map (\<lambda>c. g c * (if c0 = c then 1 else 0)) xs) = 0" for xs
    by (induction xs) auto
  show ?case
  proof (cases "c0 = c")
    case True
    with Cons.prems z [of cs] show ?thesis by simp
  next
    case False
    with Cons show ?thesis by simp
  qed
qed


lemma qimage2cv_ok:
  "0 < q_width img \<Longrightarrow> 0 < q_height img \<Longrightarrow> q_width img mod 4 = 0 \<Longrightarrow>
   qimage2cv img = Ok (q_pix img)"
proof -
  assume a: "0 < q_width img" "0 < q_height img" "q_width img mod 4 = 0"
  then have "4 dvd q_width img" by (simp add: mod_eq_0_iff_dvd)
  then obtain k where "q_width img = 4 * k" by (auto elim: dvdE)
  then have "bytes_per_line (q_width img) = 3 * q_width img"
    by (simp add: bytes_per_line_def)
  with a show ?thesis by (simp add: qimage2cv_def)
qed

lemma frame_ready_D:
  assumes "frame_ready a s f" "r \<in> set (get s f None)"
  shows "\<exists>pts. contour_points (contour r) = Ok pts"
    and "\<exists>col. colormap a (object r) = Some col \<and>
           (''.tiff'' = suffix a \<longrightarrow> inverse_colormap a col = Some (object r))"
proof -
  from assms have h:
    "(case contour_points (contour r) of Ok pts \<Rightarrow> True | Raise e \<Rightarrow> False) \<and>
     (case colormap a (object r) of
        None \<Rightarrow> False
      | Some col \<Rightarrow> ''.tiff'' = suffix a \<longrightarrow> inverse_colormap a col = Some (object r))"
    unfolding frame_ready_def by blast
  from h show "\<exists>pts. contour_points (contour r) = Ok pts"
    by (cases "contour_points (contour r)") simp_all
  from h show "\<exists>col. colormap a (object r) = Some col \<and>
           (''.tiff'' = suffix a \<longrightarrow> inverse_colormap a col = Some (object r))"
    by (cases "colormap a (object r)") simp_all
qed

lemma export_frame_empty:
  "get s f None = [] \<Longrightarrow> export_frame a s f = (Ok (), s)"
  by (simp add: export_frame_def Let_def)

lemma export_frame_png:
  assumes "frame_ready a s f" "get s f None \<noteq> []" "''.tiff'' \<noteq> suffix a"
    "0 < fst (shape a)" "0 < snd (shape a)"
  shows "\<exists>img cols. draw_records a (get s f None) (blank (fst (shape a)) (snd (shape a))) [] = Ok (img, cols)
      \<and> export_frame a s f = (Ok (), s\<lparr>images := (images s)(export_path a f \<mapsto> ColorImage img)\<rparr>)"
proof -
  let ?b = "blank (fst (shape a)) (snd (shape a))"
  have "\<forall>r \<in> set (get s f None). (\<exists>pts. contour_points (contour r) = Ok pts) \<and>
             (\<exists>col. colormap a (object r) = Some col)"
    using frame_ready_D [OF assms(1)] by blast
  from draw_records_ok [OF this, of ?b "[]"] obtain img where
    img: "draw_records a (get s f None) ?b [] =
           Ok (img, map (\<lambda>r. the (colormap a (object r))) (get s f None))"
      "q_width img = fst (shape a)" "q_height img = snd (shape a)"
    by (auto simp: blank_def)
  show ?thesis using img assms(2-5)
    by (simp add: export_frame_def Let_def)
qed


lemma export_frame_tiff:
  assumes "frame_ready a s f" "get s f None \<noteq> []" "''.tiff'' = suffix a"
    "0 < fst (shape a)" "0 < snd (shape a)" "fst (shape a) mod 4 = 0"
  shows "\<exists>img res. draw_records a (get s f None) (blank (fst (shape a)) (snd (shape a))) [] =
        Ok (img, map (\<lambda>r. the (colormap a (object r))) (get s f None))
      \<and> export_frame a s f = (Ok (), s\<lparr>images := (images s)(export_path a f \<mapsto>
            LabelImage (fst (shape a)) (snd (shape a)) res)\<rparr>)
      \<and> (\<forall>p. res p = sum_list (map (\<lambda>c. word_of_int (the (inverse_colormap a c)) *
                                    (if q_pix img p = c then 1 else 0))
                           (map (\<lambda>r. the (colormap a (object r))) (get s f None))))"
proof -
  let ?b = "blank (fst (shape a)) (snd (shape a))"
  let ?cols = "map (\<lambda>r. the (colormap a (object r))) (get s f None)"
  have "\<forall>r \<in> set (get s f None). (\<exists>pts. contour_points (contour r) = Ok pts) \<and>
             (\<exists>col. colormap a (object r) = Some col)"
    using frame_ready_D [OF assms(1)] by blast
  from draw_records_ok [OF this, of ?b "[]"] obtain img where
    img: "draw_records a (get s f None) ?b [] = Ok (img, ?cols)"
      "q_width img = fst (shape a)" "q_height img = snd (shape a)"
    by (auto simp: blank_def)
  have cv: "qimage2cv img = Ok (q_pix img)"
    using assms(4-6) img(2,3) by (simp add: qimage2cv_ok)
  have "\<forall>c \<in> set ?cols. \<exists>i. inverse_colormap a c = Some i"
    using frame_ready_D(2) [OF assms(1)] assms(3) by fastforce
  from decode_colors_ok [OF this, of "q_pix img" f "\<lambda>p. 0" s] obtain res where
    res: "decode_colors a (q_pix img) f ?cols (\<lambda>p. 0) s =
           (Ok (), if ?cols = [] then s
                   else s\<lparr>images := (images s)(export_path a f \<mapsto>
                          LabelImage (fst (shape a)) (snd (shape a)) res)\<rparr>)"
      "\<forall>p. res p = 0 + sum_list (map (\<lambda>c. word_of_int (the (inverse_colormap a c)) *
                                    (if q_pix img p = c then 1 else 0)) ?cols)"
    by blast
  have "export_frame a s f = (Ok (), s\<lparr>images := (images s)(export_path a f \<mapsto>
            LabelImage (fst (shape a)) (snd (shape a)) res)\<rparr>)"
    using img(1) cv res(1) assms(2,3) by (simp add: export_frame_def Let_def)
  with img(1) res(2) show ?thesis by auto
qed

lemma export_frames_run:
  assumes step: "\<And>g t. g \<in> set fs \<Longrightarrow> conn t = conn s \<Longrightarrow>
        (get s g None = [] \<longrightarrow> export_frame a t g = (Ok (), t)) \<and>
        (get s g None \<noteq> [] \<longrightarrow>
           (\<exists>art. Q g art \<and>
              export_frame a t g = (Ok (), t\<lparr>images := (images t)(export_path a g \<mapsto> art)\<rparr>)))"
    and nc: "\<forall>k. i \<le> k \<and> k < i + length fs \<longrightarrow> \<not> was_canceled a k"
    and ct: "conn t = conn s"
  shows "fst (export_frames a i fs t) = Ok () \<and>
     conn (snd (export_frames a i fs t)) = conn s \<and>
     (\<forall>p. p \<notin> export_path a ` {g \<in> set fs. get s g None \<noteq> []} \<longrightarrow>
          images (snd (export_frames a i fs t)) p = images t p) \<and>
     (\<forall>g \<in> set fs. get s g None \<noteq> [] \<longrightarrow>
          (\<exists>art. Q g art \<and> images (snd (export_frames a i fs t)) (export_path a g) = Some art))"
  using assms
proof (induction fs arbitrary: i t)
  case Nil
  then show ?case by simp
next
  case (Cons f fs)
  have nc0: "\<not> was_canceled a i" using Cons.prems(2) by simp
  have nc1: "\<forall>k. Suc i \<le> k \<and> k < Suc i + length fs \<longrightarrow> \<not> was_canceled a k"
    using Cons.prems(2) by simp
  have step1: "(get s g None = [] \<longrightarrow> export_frame a u g = (Ok (), u)) \<and>
        (get s g None \<noteq> [] \<longrightarrow>
           (\<exists>art. Q g art \<and>
              export_frame a u g = (Ok (), u\<lparr>images := (images u)(export_path a g \<mapsto> art)\<rparr>)))"
    if "g \<in> set fs" "conn u = conn s" for g u
  proof -
    from that(1) have "g \<in> set (f # fs)" by simp
    from Cons.prems(1) [OF this that(2)] show ?thesis .
  qed
  have hd: "(get s f None = [] \<longrightarrow> export_frame a t f = (Ok (), t)) \<and>
        (get s f None \<noteq> [] \<longrightarrow>
           (\<exists>art. Q f art \<and>
              export_frame a t f = (Ok (), t\<lparr>images := (images t)(export_path a f \<mapsto> art)\<rparr>)))"
  proof -
    have "f \<in> set (f # fs)" by simp
    from Cons.prems(1) [OF this Cons.prems(3)] show ?thesis .
  qed
  show ?case
  proof (cases "get s f None = []")
    case True
    with hd have e: "export_frame a t f = (Ok (), t)" by simp
    have run: "export_frames a i (f # fs) t = export_frames a (Suc i) fs t"
      using nc0 e by simp
    have set_eq: "{g \<in> set (f # fs). get s g None \<noteq> []} = {g \<in> set fs. get s g None \<noteq> []}"
      using True by auto
    from Cons.IH [OF step1 nc1 Cons.prems(3)] show ?thesis
      unfolding run set_eq using True by auto
  next
    case False
    with hd obtain art where art: "Q f art"
      "export_frame a t f = (Ok (), t\<lparr>images := (images t)(export_path a f \<mapsto> art)\<rparr>)"
      by blast
    let ?t1 = "t\<lparr>images := (images t)(export_path a f \<mapsto> art)\<rparr>"
    have run: "export_frames a i (f # fs) t = export_frames a (Suc i) fs ?t1"
      using nc0 art(2) by simp
    have ct1: "conn ?t1 = conn s" using Cons.prems(3) by simp
    note ih = Cons.IH [OF step1 nc1 ct1]
    have A: "fst (export_frames a i (f # fs) t) = Ok ()"
      and B: "conn (snd (export_frames a i (f # fs) t)) = conn s"
      using ih unfolding run by simp_all
    have C: "images (snd (export_frames a i (f # fs) t)) p = images t p"
      if "p \<notin> export_path a ` {g \<in> set (f # fs). get s g None \<noteq> []}" for p
    proof -
      from that False have "p \<noteq> export_path a f" by auto
      moreover from that have "p \<notin> export_path a ` {g \<in> set fs. get s g None \<noteq> []}" by auto
      ultimately show ?thesis using ih unfolding run by simp
    qed
    have D: "\<exists>art. Q g art \<and> images (snd (export_frames a i (f # fs) t)) (export_path a g) = Some art"
      if "g \<in> set (f # fs)" "get s g None \<noteq> []" for g
    proof (cases "g \<in> set fs")
      case True
      with ih that(2) show ?thesis unfolding run by blast
    next
      case False
      with that(1) have gf: "g = f" by simp
      have "export_path a f \<notin> export_path a ` {g \<in> set fs. get s g None \<noteq> []}"
        using False gf export_path_inj by fastforce
      with ih have "images (snd (export_frames a (Suc i) fs ?t1)) (export_path a f) =
          images ?t1 (export_path a f)" by blast
      with art(1) gf show ?thesis unfolding run by auto
    qed
    show ?thesis using A B C D by blast
  qed
qed


lemma label_pixel:
  assumes ready: "frame_ready a s f" and tiff: "''.tiff'' = suffix a"
    and dist: "distinct (map object (get s f None))"
    and range: "\<forall>r \<in> set (get s f None). 0 \<le> object r \<and> object r < 65536"
    and r: "r \<in> set (get s f None)" "colormap a (object r) = Some (q_pix img p)"
    and res: "res p = sum_list (map (\<lambda>c. word_of_int (the (inverse_colormap a c)) *
                                    (if q_pix img p = c then 1 else 0))
                           (map (\<lambda>r. the (colormap a (object r))) (get s f None)))"
  shows "uint (res p :: 16 word) = object r"
proof -
  let ?recs = "get s f None"
  let ?col = "\<lambda>r. the (colormap a (object r))"
  have inv: "inverse_colormap a (?col q) = Some (object q)" if "q \<in> set ?recs" for q
    using frame_ready_D(2) [OF ready that] tiff by auto
  have io: "inj_on object (set ?recs)" and dr: "distinct ?recs"
    using dist by (simp_all add: distinct_map)
  have "inj_on ?col (set ?recs)"
  proof (rule inj_onI)
    fix x y assume xy: "x \<in> set ?recs" "y \<in> set ?recs" "?col x = ?col y"
    have "Some (object x) = inverse_colormap a (?col x)" by (rule inv [OF xy(1), symmetric])
    also have "\<dots> = inverse_colormap a (?col y)" by (simp only: xy(3))
    also have "\<dots> = Some (object y)" by (rule inv [OF xy(2)])
    finally have "object x = object y" by (simp only: option.inject)
    from inj_onD [OF io this xy(1,2)] show "x = y" .
  qed
  with dr have d: "distinct (map ?col ?recs)" by (simp only: distinct_map)
  have cr: "?col r = q_pix img p" by (simp only: r(2) option.sel)
  have m: "q_pix img p \<in> set (map ?col ?recs)"
    unfolding set_map using r(1) cr [symmetric] by (rule rev_image_eqI)
  have "res p = word_of_int (the (inverse_colormap a (q_pix img p)))"
    by (simp only: res
        sum_list_one_hit [where g = "\<lambda>c. word_of_int (the (inverse_colormap a c))", OF d m])
  also have "inverse_colormap a (q_pix img p) = Some (object r)"
    using inv [OF r(1)] by (simp only: cr)
  finally have "res p = word_of_int (object r)" by (simp only: option.sel)
  moreover have "0 \<le> object r" "object r < 65536" using range r(1) by auto
  ultimately show ?thesis by (simp add: uint_word_of_int)
qed

text \<open>
  The run of \<open>export\<close> when no scan line is padded: for a label image the width is
  divisible by 4.
\<close>

lemma export_unpadded:
  assumes nc: "\<forall>k < length frms. \<not> was_canceled a k"
    and w: "0 < fst (shape a)" and h: "0 < snd (shape a)"
    and al: "''.tiff'' = suffix a \<longrightarrow> fst (shape a) mod 4 = 0"
    and ready: "\<forall>f \<in> set frms. frame_ready a s f"
  shows "fst (export s a frms) = Ok () \<and>
    conn (snd (export s a frms)) = conn s \<and>
    dom (images (snd (export s a frms))) =
      dom (images s) \<union> export_path a ` {f \<in> set frms. get s f None \<noteq> []} \<and>
    (\<forall>p. p \<notin> export_path a ` {f \<in> set frms. get s f None \<noteq> []} \<longrightarrow>
       images (snd (export s a frms)) p = images s p) \<and>
    (\<forall>f g. export_path a f = export_path a g \<longrightarrow> f = g) \<and>
    (''.tiff'' = suffix a \<longrightarrow>
      (\<forall>f \<in> set frms. get s f None \<noteq> [] \<longrightarrow> distinct (map object (get s f None)) \<longrightarrow>
         (\<forall>r \<in> set (get s f None). 0 \<le> object r \<and> object r < 65536) \<longrightarrow>
         (case (images (snd (export s a frms)) (export_path a f),
                draw_records a (get s f None) (blank (fst (shape a)) (snd (shape a))) []) of
            (Some (LabelImage w1 h1 res), Ok (img, cols)) \<Rightarrow>
               \<forall>r \<in> set (get s f None). \<forall>p.
                 colormap a (object r) = Some (q_pix img p) \<longrightarrow> uint (res p) = object r
          | _ \<Rightarrow> False)))"
proof -
  let ?b = "blank (fst (shape a)) (snd (shape a))"
  let ?paths = "export_path a ` {f \<in> set frms. get s f None \<noteq> []}"
  define Q where "Q g art \<longleftrightarrow>
     (''.tiff'' = suffix a \<longrightarrow>
       (\<exists>img res. draw_records a (get s g None) ?b [] =
            Ok (img, map (\<lambda>r. the (colormap a (object r))) (get s g None)) \<and>
          art = LabelImage (fst (shape a)) (snd (shape a)) res \<and>
          (\<forall>p. res p = sum_list (map (\<lambda>c. word_of_int (the (inverse_colormap a c)) *
                                    (if q_pix img p = c then 1 else 0))
                           (map (\<lambda>r. the (colormap a (object r))) (get s g None))))))"
    for g art
  have step: "(get s g None = [] \<longrightarrow> export_frame a t g = (Ok (), t)) \<and>
        (get s g None \<noteq> [] \<longrightarrow>
           (\<exists>art. Q g art \<and>
              export_frame a t g = (Ok (), t\<lparr>images := (images t)(export_path a g \<mapsto> art)\<rparr>)))"
    if g: "g \<in> set frms" and ct: "conn t = conn s" for g t
  proof -
    have gt: "get t g None = get s g None" using ct by (rule get_conn)
    have rt: "frame_ready a t g" using ready g gt by (simp add: frame_ready_def)
    have e: "get s g None = [] \<Longrightarrow> export_frame a t g = (Ok (), t)"
      using export_frame_empty [of t g a] gt by simp
    have n: "\<exists>art. Q g art \<and>
              export_frame a t g = (Ok (), t\<lparr>images := (images t)(export_path a g \<mapsto> art)\<rparr>)"
      if ne: "get s g None \<noteq> []"
    proof (cases "''.tiff'' = suffix a")
      case True
      with al have "fst (shape a) mod 4 = 0" by simp
      from export_frame_tiff [OF rt _ True w h this] ne gt
      show ?thesis unfolding Q_def gt by auto
    next
      case False
      from export_frame_png [OF rt _ False w h] ne gt
      show ?thesis unfolding Q_def using False by auto
    qed
    from e n show ?thesis by blast
  qed
  have nc0: "\<forall>k. 0 \<le> k \<and> k < 0 + length frms \<longrightarrow> \<not> was_canceled a k"
    using nc by simp
  have run: "fst (export_frames a 0 frms s) = Ok () \<and>
     conn (snd (export_frames a 0 frms s)) = conn s \<and>
     (\<forall>p. p \<notin> ?paths \<longrightarrow> images (snd (export_frames a 0 frms s)) p = images s p) \<and>
     (\<forall>g \<in> set frms. get s g None \<noteq> [] \<longrightarrow>
          (\<exists>art. Q g art \<and> images (snd (export_frames a 0 frms s)) (export_path a g) = Some art))"
    by (rule export_frames_run [where Q = Q, OF step nc0]) simp_all
  let ?s1 = "snd (export s a frms)"
  have A: "fst (export s a frms) = Ok ()" and B: "conn ?s1 = conn s"
    using run by (simp_all add: export_def)
  have D: "\<forall>p. p \<notin> ?paths \<longrightarrow> images ?s1 p = images s p"
    using run by (simp add: export_def)
  have W: "\<forall>g \<in> set frms. get s g None \<noteq> [] \<longrightarrow>
          (\<exists>art. Q g art \<and> images ?s1 (export_path a g) = Some art)"
    using run by (simp add: export_def)
  have C: "dom (images ?s1) = dom (images s) \<union> ?paths"
  proof (rule set_eqI)
    fix p
    show "p \<in> dom (images ?s1) \<longleftrightarrow> p \<in> dom (images s) \<union> ?paths"
    proof (cases "p \<in> ?paths")
      case True
      then obtain g where "g \<in> set frms" "get s g None \<noteq> []" "p = export_path a g" by auto
      with W have "p \<in> dom (images ?s1)" by auto
      with True show ?thesis by simp
    next
      case False
      with D have "images ?s1 p = images s p" by simp
      with False show ?thesis by (simp add: dom_def)
    qed
  qed
  have E: "\<forall>f g. export_path a f = export_path a g \<longrightarrow> f = g"
    using export_path_inj by blast
  have F: "case (images ?s1 (export_path a f), draw_records a (get s f None) ?b []) of
            (Some (LabelImage w1 h1 res), Ok (img, cols)) \<Rightarrow>
               \<forall>r \<in> set (get s f None). \<forall>p.
                 colormap a (object r) = Some (q_pix img p) \<longrightarrow> uint (res p) = object r
          | _ \<Rightarrow> False"
    if t: "''.tiff'' = suffix a" and f: "f \<in> set frms" "get s f None \<noteq> []"
      and d: "distinct (map object (get s f None))"
      and rg: "\<forall>r \<in> set (get s f None). 0 \<le> object r \<and> object r < 65536" for f
  proof -
    from W f obtain art where art: "Q f art" "images ?s1 (export_path a f) = Some art" by blast
    from art(1) t obtain img res where ir:
      "draw_records a (get s f None) ?b [] =
            Ok (img, map (\<lambda>r. the (colormap a (object r))) (get s f None))"
      "art = LabelImage (fst (shape a)) (snd (shape a)) res"
      "\<forall>p. res p = sum_list (map (\<lambda>c. word_of_int (the (inverse_colormap a c)) *
                                    (if q_pix img p = c then 1 else 0))
                           (map (\<lambda>r. the (colormap a (object r))) (get s f None)))"
      unfolding Q_def by blast
    have rf: "frame_ready a s f" using ready f(1) by simp
    have "uint (res p) = object r"
      if "r \<in> set (get s f None)" "colormap a (object r) = Some (q_pix img p)" for r p
      by (rule label_pixel [where res = res, OF rf t d rg that ir(3) [THEN spec, of p]])
    then show ?thesis using art(2) ir(1,2) by simp
  qed
  show ?thesis using A B C D E F by blast
qed

text \<open>
  With a width that is not divisible by 4 the buffer of the canvas is longer than
  \<open>height * width * 3\<close> bytes, the reshape in \<open>qimage2cv\<close> raises, and so does the export
  of a label image at the first requested frame that has a record. Nothing is written.
\<close>

lemma bytes_per_line_padded:
  assumes "w mod 4 \<noteq> 0" "0 < h"
  shows "bytes_per_line w * h \<noteq> h * w * 3"
proof -
  have "4 * ((3 * w + 3) div 4) \<noteq> 3 * w" using assms(1) by presburger
  then have "bytes_per_line w \<noteq> w * 3" by (simp add: bytes_per_line_def mult.commute)
  with assms(2) show ?thesis by (simp add: mult.commute)
qed

lemma export_frame_tiff_padded:
  assumes "frame_ready a s f" "get s f None \<noteq> []" "''.tiff'' = suffix a"
    "0 < fst (shape a)" "0 < snd (shape a)" "fst (shape a) mod 4 \<noteq> 0"
  shows "export_frame a s f = (Raise (ValueError ''cannot reshape array''), s)"
proof -
  let ?b = "blank (fst (shape a)) (snd (shape a))"
  let ?cols = "map (\<lambda>r. the (colormap a (object r))) (get s f None)"
  have "\<forall>r \<in> set (get s f None). (\<exists>pts. contour_points (contour r) = Ok pts) \<and>
             (\<exists>col. colormap a (object r) = Some col)"
    using frame_ready_D [OF assms(1)] by blast
  from draw_records_ok [OF this, of ?b "[]"] obtain img where
    img: "draw_records a (get s f None) ?b [] = Ok (img, ?cols)"
      "q_width img = fst (shape a)" "q_height img = snd (shape a)"
    by (auto simp: blank_def)
  have "bytes_per_line (q_width img) * q_height img \<noteq> q_height img * q_width img * 3"
    using bytes_per_line_padded [OF assms(6,5)] img(2,3) by simp
  then have cv: "qimage2cv img = Raise (ValueError ''cannot reshape array'')"
    using assms(4,5) img(2,3) by (simp add: qimage2cv_def)
  show ?thesis
    using img(1) cv assms(2,3) by (simp add: export_frame_def Let_def)
qed


lemma export_frames_padded:
  assumes "\<forall>f \<in> set fs. frame_ready a t f"
    and "\<forall>k. i \<le> k \<and> k < i + length fs \<longrightarrow> \<not> was_canceled a k"
    and "\<exists>f \<in> set fs. get t f None \<noteq> []"
    and "''.tiff'' = suffix a" "0 < fst (shape a)" "0 < snd (shape a)"
      "fst (shape a) mod 4 \<noteq> 0"
  shows "export_frames a i fs t = (Raise (ValueError ''cannot reshape array''), t)"
  using assms(1-3)
proof (induction fs arbitrary: i)
  case Nil
  then show ?case by simp
next
  case (Cons f fs)
  have nc0: "\<not> was_canceled a i" using Cons.prems(2) by simp
  have nc1: "\<forall>k. Suc i \<le> k \<and> k < Suc i + length fs \<longrightarrow> \<not> was_canceled a k"
    using Cons.prems(2) by simp
  have rf: "frame_ready a t f" and rfs: "\<forall>f \<in> set fs. frame_ready a t f"
    using Cons.prems(1) by simp_all
  show ?case
  proof (cases "get t f None = []")
    case True
    then have e: "export_frame a t f = (Ok (), t)" by (rule export_frame_empty)
    from True Cons.prems(3) have "\<exists>f \<in> set fs. get t f None \<noteq> []" by auto
    from Cons.IH [OF rfs nc1 this] nc0 e show ?thesis by simp
  next
    case False
    from export_frame_tiff_padded [OF rf False assms(4-7)] nc0 show ?thesis by simp
  qed
qed

subsection \<open>The example export, evaluated\<close>

text \<open>The example colormap and its inverse are inverse to each other on the ids below \<open>2 ^ 24\<close>.\<close>

lemma colormap_roundtrip:
  assumes "0 \<le> i" "i < 16777216"
  shows "rgb_of_id i = Some (word_of_int i, word_of_int (i div 256), word_of_int (i div 65536)) \<and>
     id_of_rgb (word_of_int i, word_of_int (i div 256), word_of_int (i div 65536)) = Some i"
proof -
  have "i div 65536 \<le> 16777215 div 65536"
    using assms(2) by (intro zdiv_mono1) simp_all
  then have hi: "i div 65536 \<le> 255" by simp
  have "0 \<le> i div 65536" using assms(1) by (simp add: pos_imp_zdiv_nonneg_iff)
  with hi have top: "i div 65536 mod 256 = i div 65536" by simp
  have "i mod (256 * 256) = 256 * (i div 256 mod 256) + i mod 256"
    by (rule zmod_zmult2_eq) simp
  then have low: "i mod 256 + 256 * (i div 256 mod 256) = i mod 65536" by simp
  have "i mod 256 + 256 * (i div 256 mod 256) + 65536 * (i div 65536 mod 256) =
      i mod 65536 + 65536 * (i div 65536)"
    by (simp only: low top)
  also have "\<dots> = i" by simp
  finally have e: "i mod 256 + 256 * (i div 256 mod 256) + 65536 * (i div 65536 mod 256) = i" .
  have u: "uint (word_of_int i :: 8 word) = i mod 256"
    "uint (word_of_int (i div 256) :: 8 word) = i div 256 mod 256"
    "uint (word_of_int (i div 65536) :: 8 word) = i div 65536 mod 256"
    by (simp_all add: uint_word_of_int)
  have "rgb_of_id i = Some (word_of_int i, word_of_int (i div 256), word_of_int (i div 65536))"
    using assms by (simp add: rgb_of_id_def)
  moreover have "id_of_rgb (word_of_int i, word_of_int (i div 256), word_of_int (i div 65536)) = Some i"
    unfolding id_of_rgb_def prod.case u using e by (simp only:)
  ultimately show ?thesis by (rule conjI)
qed

lemma contour_ex1: "contour_points ''0 0 1 0 1 1'' = Ok [(0, 0), (1, 0), (1, 1)]"
  by code_simp

lemma contour_ex2: "contour_points ''2 2 3 2 3 3'' = Ok [(2, 2), (3, 2), (3, 3)]"
  by code_simp


lemma get_ex:
  "get s_ex 1 None =
     [\<lparr>frame = 1, object = 1, cls = ''car'', contour = ''0 0 1 0 1 1'', final = 1\<rparr>,
      \<lparr>frame = 1, object = 2, cls = ''bus'', contour = ''2 2 3 2 3 3'', final = 1\<rparr>]"
  "get s_ex 2 None = []"
  "get s_ex 3 None =
     [\<lparr>frame = 3, object = 1, cls = ''car'', contour = ''0 0 1 0 1 1'', final = 0\<rparr>]"
  by (simp_all add: get_def s_ex_def)

lemma colors_ex:
  "rgb_of_id 1 = Some (1, 0, 0)" "rgb_of_id 2 = Some (2, 0, 0)" "rgb_of_id 65536 = Some (0, 0, 1)"
  "id_of_rgb (1, 0, 0) = Some 1" "id_of_rgb (2, 0, 0) = Some 2" "id_of_rgb (0, 0, 1) = Some 65536"
  by (simp_all add: rgb_of_id_def id_of_rgb_def)






subsection \<open>get_max_id\<close>

text \<open>
  C6: \<open>get_max_id()\<close> is 0 on a store without frame records, and otherwise the greatest
  object id over all records.
\<close>

theorem get_max_id_spec:
  "(frames (conn s) = [] \<longrightarrow> get_max_id s = 0) \<and>
   (frames (conn s) \<noteq> [] \<longrightarrow> get_max_id s = Max (object ` set (frames (conn s))))"
proof (cases "frames (conn s)")
  case Nil
  then show ?thesis by (simp add: get_max_id_def)
next
  case (Cons r rs)
  then show ?thesis by (simp add: get_max_id_def fold_max_Max)
qed

text \<open>The empty store, and the store after records with object ids 3, 7 and 2 were added.\<close>

theorem get_max_id_witness:
  "frames (conn s0) = [] \<and> get_max_id s0 = 0 \<and>
   frames (conn (snd (add (snd (add (snd (add s0 1 3 ''a'' [] True)) 1 7 ''a'' [] True))
       2 2 ''b'' [] False))) \<noteq> [] \<and>
   get_max_id (snd (add (snd (add (snd (add s0 1 3 ''a'' [] True)) 1 7 ''a'' [] True))
       2 2 ''b'' [] False)) = 7"
  using get_max_id_spec [of s0]
    get_max_id_spec [of "snd (add (snd (add (snd (add s0 1 3 ''a'' [] True)) 1 7 ''a'' [] True))
       2 2 ''b'' [] False)"]
  by (simp add: conn_add s0_def)

subsection \<open>set_frame\<close>

text \<open>
  C7: \<open>set_frame(n)\<close> with \<open>1 \<le> n \<le> num_frames\<close> sets the cursor to \<open>n\<close>, writes it to
  every session row and commits, so that the bound file holds the connection's content;
  for any other \<open>n\<close> it returns without an error and leaves the whole state, the cursor
  with it, as it was.
\<close>

theorem set_frame_spec:
  "(1 \<le> n \<and> n \<le> num_frames s \<longrightarrow>
      fst (set_frame s n) = Ok () \<and>
      current_frame (snd (set_frame s n)) = n \<and>
      durable (snd (set_frame s n)) = Some (conn (snd (set_frame s n))) \<and>
      session (conn (snd (set_frame s n))) = map (\<lambda>(v, c). (v, n)) (session (conn s)) \<and>
      frames (conn (snd (set_frame s n))) = frames (conn s)) \<and>
   (\<not> (1 \<le> n \<and> n \<le> num_frames s) \<longrightarrow> set_frame s n = (Ok (), s))"
  by (auto simp: set_frame_def Let_def commit_def durable_def)

theorem set_frame_witness:
  "(1::int) \<le> 5 \<and> 5 \<le> num_frames s0 \<and> current_frame (snd (set_frame s0 5)) = 5 \<and>
   map_option session (durable (snd (set_frame s0 5))) = Some [(''v.mp4'', 5)] \<and>
   \<not> (1 \<le> (0::int) \<and> 0 \<le> num_frames s0) \<and> set_frame s0 0 = (Ok (), s0) \<and>
   \<not> (1 \<le> num_frames s0 + 1 \<and> num_frames s0 + 1 \<le> num_frames s0) \<and>
   set_frame s0 (num_frames s0 + 1) = (Ok (), s0)"
  using set_frame_spec [of 5 s0] set_frame_spec [of 0 s0]
    set_frame_spec [of "num_frames s0 + 1" s0]
  by (simp add: s0_def)

subsection \<open>get_frame_image\<close>

text \<open>
  C10: without an open capture (\<open>cap\<close> is \<open>None\<close>) \<open>get_frame_image\<close> returns \<open>None\<close>
  and raises nothing.
\<close>

theorem get_frame_image_no_capture:
  "cap s = None \<Longrightarrow> get_frame_image s = Ok None"
  by (simp add: get_frame_image_def)

theorem get_frame_image_no_capture_witness:
  "cap s0 = None \<and> get_frame_image s0 = Ok None"
  using get_frame_image_no_capture [of s0] by (simp add: s0_def)

subsection \<open>add, then get\<close>



subsection \<open>get_frames_indexes_of_id\<close>

text \<open>
  C9, as the code has it: \<open>get_frames_indexes_of_id(object_id)\<close> returns the frame
  numbers of the id's records in storage order, one entry per record. The numbers
  returned are exactly the frames in which the id appears; no frame is listed twice
  when no two records share \<open>(frame, object_id)\<close>; the list is empty when the id has
  no records. The query has no \<open>ORDER BY\<close>: the list is not sorted.
\<close>

theorem get_frames_indexes_of_id_storage_order:
  "get_frames_indexes_of_id s i =
     Ok (map frame (filter (\<lambda>r. object r = i) (frames (conn s)))) \<and>
   set (map frame (filter (\<lambda>r. object r = i) (frames (conn s)))) =
     {f. \<exists>r \<in> set (frames (conn s)). object r = i \<and> frame r = f} \<and>
   (distinct (map (\<lambda>r. (frame r, object r)) (frames (conn s))) \<longrightarrow>
      distinct (map frame (filter (\<lambda>r. object r = i) (frames (conn s))))) \<and>
   ((\<forall>r \<in> set (frames (conn s)). object r \<noteq> i) \<longrightarrow> get_frames_indexes_of_id s i = Ok [])"
proof -
  let ?rs = "frames (conn s)"
  have d: "distinct (map (\<lambda>r. (frame r, object r)) rs) \<Longrightarrow>
        distinct (map frame (filter (\<lambda>r. object r = i) rs))" for rs :: "frame_row list"
    by (induction rs) (auto simp: image_iff)
  have e: "(\<forall>r \<in> set ?rs. object r \<noteq> i) \<Longrightarrow> filter (\<lambda>r. object r = i) ?rs = []"
    by (simp add: filter_empty_conv)
  show ?thesis
    unfolding get_frames_indexes_of_id_eq using d e by auto
qed

theorem get_frames_indexes_of_id_storage_order_witness:
  "distinct (map (\<lambda>r. (frame r, object r))
     (frames (conn (snd (add (snd (add s0 5 1 ''a'' [] True)) 3 1 ''a'' [] True))))) \<and>
   get_frames_indexes_of_id (snd (add (snd (add s0 5 1 ''a'' [] True)) 3 1 ''a'' [] True)) 1 =
     Ok [5, 3] \<and> distinct [5 :: int, 3] \<and>
   map object (frames (conn (snd (add (snd (add s0 5 1 ''a'' [] True)) 3 1 ''a'' [] True)))) =
     [1, 1] \<and>
   get_frames_indexes_of_id (snd (add (snd (add s0 5 1 ''a'' [] True)) 3 1 ''a'' [] True)) 2 =
     Ok []"
  using get_frames_indexes_of_id_storage_order
      [of "snd (add (snd (add s0 5 1 ''a'' [] True)) 3 1 ''a'' [] True)" 1]
    get_frames_indexes_of_id_storage_order
      [of "snd (add (snd (add s0 5 1 ''a'' [] True)) 3 1 ''a'' [] True)" 2]
  by (simp add: conn_add s0_def)

text \<open>
  Object 1 recorded in frame 5 and then in frame 3: the frames come back as \<open>[5, 3]\<close>,
  which is not ascending.
\<close>

theorem get_frames_indexes_of_id_not_ascending:
  "get_frames_indexes_of_id (snd (add (snd (add s0 5 1 ''a'' [] True)) 3 1 ''a'' [] True)) 1 =
     Ok [5, 3] \<and>
   \<not> sorted [5 :: int, 3]"
  by (simp add: get_frames_indexes_of_id_eq conn_add s0_def)

subsection \<open>Durability of the mutations\<close>

text \<open>
  C4 asks that every mutating operation, \<open>add_class\<close> among them, has committed when it
  returns. \<open>add_class\<close> executes its \<open>INSERT\<close> and returns without
  \<open>connection.commit()\<close>: on a store whose file equals the connection's view, the new
  class is in the view afterwards and not in the file.
\<close>

theorem add_class_leaves_change_uncommitted:
  "durable (commit s0) = Some (conn (commit s0)) \<and>
   fst (add_class (commit s0) ''car'') = Ok () \<and>
   classes (conn (snd (add_class (commit s0) ''car''))) = [''car''] \<and>
   map_option classes (durable (snd (add_class (commit s0) ''car''))) = Some []"
  by (simp add: add_class_def commit_def durable_def s0_def)

subsection \<open>save\<close>

text \<open>
  C8: \<open>save(path)\<close> with \<open>path\<close> equal to the bound filename returns at once and leaves
  the state (binding, connection, files) as it was; for any other binding, \<open>save\<close> to
  the reserved name \<open>.working.atc\<close> raises \<open>ValueError('Illegal filename')\<close> before the
  commit, the copy and the reload, so the state is again as it was.
\<close>

theorem save_spec:
  "(path = filename s \<longrightarrow> save s path = (Ok (), s)) \<and>
   (path \<noteq> filename s \<and> path = TEMP_WORKING_FILENAME \<longrightarrow>
      save s path = (Raise (ValueError ''Illegal filename''), s))"
  by (simp add: save_def)

theorem save_witness:
  "''a.atc'' = filename s0 \<and> save s0 ''a.atc'' = (Ok (), s0) \<and>
   ''.working.atc'' \<noteq> filename s0 \<and> ''.working.atc'' = TEMP_WORKING_FILENAME \<and>
   save s0 ''.working.atc'' = (Raise (ValueError ''Illegal filename''), s0)"
  using save_spec [of "''a.atc''" s0] save_spec [of "''.working.atc''" s0]
  by (simp add: s0_def TEMP_WORKING_FILENAME_def SUFFIX_def)

subsection \<open>combine_objects\<close>

text \<open>
  C1: let \<open>a\<close> and \<open>b\<close> be positive ids that both have records and share no frame. Then
  \<open>combine_objects(a, b)\<close> succeeds; afterwards \<open>get_frames_indexes_of_id(a)\<close> is empty;
  the frames listed for \<open>b\<close> are, as a set, the frames listed for \<open>a\<close> before together
  with those listed for \<open>b\<close> before; every record keyed by \<open>b\<close> has a class that a record
  of \<open>b\<close> had before, so when the records of \<open>b\<close> had one class \<open>c\<close>, every record keyed
  by \<open>b\<close> has class \<open>c\<close>.
\<close>

theorem combine_objects_merges:
  assumes "0 < a" "0 < b"
    and "\<exists>r \<in> set (frames (conn s)). object r = a"
    and "\<exists>r \<in> set (frames (conn s)). object r = b"
    and "\<forall>r \<in> set (frames (conn s)). \<forall>q \<in> set (frames (conn s)).
           object r = a \<and> object q = b \<longrightarrow> frame r \<noteq> frame q"
  shows "fst (combine_objects s a b) = Ok () \<and>
    get_frames_indexes_of_id (snd (combine_objects s a b)) a = Ok [] \<and>
    (case (get_frames_indexes_of_id (snd (combine_objects s a b)) b,
           get_frames_indexes_of_id s a, get_frames_indexes_of_id s b) of
       (Ok fs, Ok fa, Ok fb) \<Rightarrow> set fs = set fa \<union> set fb
     | _ \<Rightarrow> False) \<and>
    (\<forall>r \<in> set (frames (conn (snd (combine_objects s a b)))). object r = b \<longrightarrow>
       (\<exists>q \<in> set (frames (conn s)). object q = b \<and> cls q = cls r)) \<and>
    (\<forall>c. (\<forall>q \<in> set (frames (conn s)). object q = b \<longrightarrow> cls q = c) \<longrightarrow>
       (\<forall>r \<in> set (frames (conn (snd (combine_objects s a b)))). object r = b \<longrightarrow> cls r = c))"
proof -
  let ?rows = "frames (conn s)"
  let ?c = "cls (hd (filter (\<lambda>r. object r = b) ?rows))"
  have ne: "a \<noteq> b" using assms(3,5) by auto
  have fb: "filter (\<lambda>r. object r = b) ?rows \<noteq> []"
    using assms(4) by (simp add: filter_empty_conv)
  have hd: "hd (filter (\<lambda>r. object r = b) ?rows) \<in> set ?rows"
    "object (hd (filter (\<lambda>r. object r = b) ?rows)) = b"
    using hd_filter_in [OF fb] by simp_all
  have eq: "combine_objects s a b =
     (Ok (), commit (s\<lparr>conn := (conn s)\<lparr>frames := merged a b ?c ?rows\<rparr>\<rparr>))"
    using assms by (rule combine_objects_ok)
  have post: "frames (conn (snd (combine_objects s a b))) = merged a b ?c ?rows"
    by (simp add: eq commit_def)
  have 1: "fst (combine_objects s a b) = Ok ()" by (simp add: eq)
  have 2: "get_frames_indexes_of_id (snd (combine_objects s a b)) a = Ok []"
    by (simp add: get_frames_indexes_of_id_eq post merged_no_from [OF ne])
  have 3: "(case (get_frames_indexes_of_id (snd (combine_objects s a b)) b,
           get_frames_indexes_of_id s a, get_frames_indexes_of_id s b) of
       (Ok fs, Ok fa, Ok fb) \<Rightarrow> set fs = set fa \<union> set fb
     | _ \<Rightarrow> False)"
    using merged_frames_to [OF ne, of ?c ?rows]
    by (simp add: get_frames_indexes_of_id_eq post)
  have 4: "\<exists>q \<in> set ?rows. object q = b \<and> cls q = cls r"
    if "r \<in> set (frames (conn (snd (combine_objects s a b))))" "object r = b" for r
    using merged_cls [of r a b ?c ?rows] that hd unfolding post by auto
  have 5: "cls r = c"
    if "\<forall>q \<in> set ?rows. object q = b \<longrightarrow> cls q = c"
      "r \<in> set (frames (conn (snd (combine_objects s a b))))" "object r = b" for r c
    using 4 [OF that(2,3)] that(1) by auto
  show ?thesis using 1 2 3 4 5 by blast
qed

theorem combine_objects_merges_witness:
  "fst (combine_objects s_two 1 2) = Ok () \<and>
   get_frames_indexes_of_id s_two 1 = Ok [1] \<and> get_frames_indexes_of_id s_two 2 = Ok [2] \<and>
   get_frames_indexes_of_id (snd (combine_objects s_two 1 2)) 1 = Ok [] \<and>
   get_frames_indexes_of_id (snd (combine_objects s_two 1 2)) 2 = Ok [1, 2] \<and>
   map cls (frames (conn (snd (combine_objects s_two 1 2)))) = [''bus'', ''bus'', ''bus'']"
proof -
  have "fst (combine_objects s_two 1 2) = Ok () \<and>
    get_frames_indexes_of_id (snd (combine_objects s_two 1 2)) 1 = Ok []"
    using combine_objects_merges [of 1 2 s_two] by (simp add: rows_s_two)
  moreover have "frames (conn (snd (combine_objects s_two 1 2))) =
     [\<lparr>frame = 1, object = 2, cls = ''bus'', contour = [], final = 1\<rparr>,
      \<lparr>frame = 2, object = 2, cls = ''bus'', contour = [], final = 1\<rparr>,
      \<lparr>frame = 2, object = 3, cls = ''bus'', contour = [], final = 0\<rparr>]"
    by (simp add: combine_objects_def merged_def rows_s_two commit_def Let_def)
  ultimately show ?thesis
    by (simp add: get_frames_indexes_of_id_eq rows_s_two)
qed

text \<open>
  C2: \<open>combine_objects\<close> raises \<open>ValueError\<close> with the message for an invalid id when
  an id is not positive; otherwise with the message for a missing source or a missing
  target when \<open>from_id\<close>, or else \<open>to_id\<close>, has no records; otherwise with the message
  for shared frames when some frame holds records of both. Whenever it raises, the state
  (connection view and files) is the one before the call.
\<close>

theorem combine_objects_rejects:
  "(a \<le> 0 \<or> b \<le> 0 \<longrightarrow> fst (combine_objects s a b) = Raise (ValueError msg_invalid_id)) \<and>
   (0 < a \<and> 0 < b \<and> (\<forall>r \<in> set (frames (conn s)). object r \<noteq> a) \<longrightarrow>
      fst (combine_objects s a b) = Raise (ValueError msg_no_from)) \<and>
   (0 < a \<and> 0 < b \<and> (\<exists>r \<in> set (frames (conn s)). object r = a) \<and>
      (\<forall>r \<in> set (frames (conn s)). object r \<noteq> b) \<longrightarrow>
      fst (combine_objects s a b) = Raise (ValueError msg_no_to)) \<and>
   (0 < a \<and> 0 < b \<and>
      (\<exists>r \<in> set (frames (conn s)). \<exists>q \<in> set (frames (conn s)).
         object r = a \<and> object q = b \<and> frame r = frame q) \<longrightarrow>
      fst (combine_objects s a b) = Raise (ValueError msg_shared)) \<and>
   (\<forall>e. fst (combine_objects s a b) = Raise e \<longrightarrow> snd (combine_objects s a b) = s)"
proof -
  let ?rows = "frames (conn s)"
  have 1: "a \<le> 0 \<or> b \<le> 0 \<Longrightarrow> fst (combine_objects s a b) = Raise (ValueError msg_invalid_id)"
    by (simp add: combine_objects_def Let_def)
  have 2: "fst (combine_objects s a b) = Raise (ValueError msg_no_from)"
    if "0 < a" "0 < b" "\<forall>r \<in> set ?rows. object r \<noteq> a"
  proof -
    have "filter (\<lambda>r. object r = a) ?rows = []" using that(3) by (simp add: filter_empty_conv)
    with that(1,2) show ?thesis by (simp add: combine_objects_def Let_def)
  qed
  have 3: "fst (combine_objects s a b) = Raise (ValueError msg_no_to)"
    if "0 < a" "0 < b" "\<exists>r \<in> set ?rows. object r = a" "\<forall>r \<in> set ?rows. object r \<noteq> b"
  proof -
    have "filter (\<lambda>r. object r = a) ?rows \<noteq> []" using that(3) by (simp add: filter_empty_conv)
    moreover have "filter (\<lambda>r. object r = b) ?rows = []" using that(4) by (simp add: filter_empty_conv)
    ultimately show ?thesis using that(1,2) by (simp add: combine_objects_def Let_def)
  qed
  have 4: "fst (combine_objects s a b) = Raise (ValueError msg_shared)"
    if "0 < a" "0 < b" "\<exists>r \<in> set ?rows. \<exists>q \<in> set ?rows. object r = a \<and> object q = b \<and> frame r = frame q"
  proof -
    have "filter (\<lambda>r. object r = a) ?rows \<noteq> []" using that(3) by (auto simp: filter_empty_conv)
    moreover have "filter (\<lambda>r. object r = b) ?rows \<noteq> []" using that(3) by (auto simp: filter_empty_conv)
    moreover have "filter (\<lambda>r. object r = a \<and>
      frame r \<in> set (map frame (filter (\<lambda>q. object q = b) ?rows))) ?rows \<noteq> []"
      using that(3) by (auto simp: filter_empty_conv image_iff)
    ultimately show ?thesis using that(1,2) by (simp add: combine_objects_def Let_def)
  qed
  have 5: "fst (combine_objects s a b) = Raise e \<Longrightarrow> snd (combine_objects s a b) = s" for e
    by (auto simp: combine_objects_def Let_def split: if_splits list.splits)
  show ?thesis using 1 2 3 4 5 by blast
qed

theorem combine_objects_rejects_witness:
  "combine_objects s_two 0 5 = (Raise (ValueError msg_invalid_id), s_two) \<and>
   combine_objects s_two 9 1 = (Raise (ValueError msg_no_from), s_two) \<and>
   combine_objects s_two 1 9 = (Raise (ValueError msg_no_to), s_two) \<and>
   combine_objects s_two 2 3 = (Raise (ValueError msg_shared), s_two)"
  using combine_objects_rejects [of 0 5 s_two] combine_objects_rejects [of 9 1 s_two]
    combine_objects_rejects [of 1 9 s_two] combine_objects_rejects [of 2 3 s_two]
  by (simp add: rows_s_two prod_eq_iff)

subsection \<open>export\<close>



text \<open>
  The same export with a canvas of width 5: as a label image it raises on frame 1 and
  writes nothing, as a colour image it goes through.
\<close>

lemma export_tiff_raises_on_padded_width:
  "export s_ex (a_tiff\<lparr>shape := (5, 4)\<rparr>) [1, 2, 3] =
     (Raise (ValueError ''cannot reshape array''), s_ex) \<and>
   fst (export s_ex (a_tiff\<lparr>shape := (5, 4), suffix := ''.png''\<rparr>) [1, 2, 3]) = Ok ()"
proof -
  let ?a = "a_tiff\<lparr>shape := (5, 4)\<rparr>"
  let ?p = "a_tiff\<lparr>shape := (5, 4), suffix := ''.png''\<rparr>"
  have r: "\<forall>f \<in> set [1, 2, 3]. frame_ready ?a s_ex f"
    by (simp add: frame_ready_def get_ex contour_ex1 contour_ex2 a_tiff_def colors_ex)
  have nc: "\<forall>k. 0 \<le> k \<and> k < 0 + length [1, 2, 3 :: int] \<longrightarrow> \<not> was_canceled ?a k"
    by (simp add: a_tiff_def)
  have ne: "\<exists>f \<in> set [1, 2, 3]. get s_ex f None \<noteq> []" by (simp add: get_ex)
  have sh: "''.tiff'' = suffix ?a" "0 < fst (shape ?a)" "0 < snd (shape ?a)"
    "fst (shape ?a) mod 4 \<noteq> 0"
    by (simp_all add: a_tiff_def)
  from export_frames_padded [OF r nc ne sh]
  have A: "export s_ex ?a [1, 2, 3] = (Raise (ValueError ''cannot reshape array''), s_ex)"
    by (simp add: export_def)
  have p1: "\<forall>k < length [1, 2, 3 :: int]. \<not> was_canceled ?p k" by (simp add: a_tiff_def)
  have p2: "0 < fst (shape ?p)" and p3: "0 < snd (shape ?p)"
    and p4: "''.tiff'' = suffix ?p \<longrightarrow> fst (shape ?p) mod 4 = 0"
    by (simp_all add: a_tiff_def)
  have p5: "\<forall>f \<in> set [1, 2, 3]. frame_ready ?p s_ex f"
    by (simp add: frame_ready_def get_ex contour_ex1 contour_ex2 a_tiff_def colors_ex)
  have B: "fst (export s_ex ?p [1, 2, 3]) = Ok ()"
    using export_unpadded [OF p1 p2 p3 p4 p5] by blast
  from A B show ?thesis by (rule conjI)
qed


end
